theory Spec2Isabelle
  imports Main "HOL-Library.AList"
begin

section \<open>Python strings\<close>

text \<open>
  A Python \<open>str\<close> is modelled as a \<open>string\<close> in which every \<open>char\<close> is one code point
  below 256 (the Latin-1 range): \<open>length\<close> counts code points, as \<open>len\<close> does.
\<close>

definition isspace :: "char \<Rightarrow> bool" where
  \<comment> \<open>\<open>str.isspace\<close> on one code point below 256: TAB, LF, VT, FF, CR, FS, GS, RS, US,
      SPACE, NEL and NBSP.\<close>
  "isspace c = (of_char c \<in> {9, 10, 11, 12, 13, 28, 29, 30, 31, 32, 133, 160 :: nat})"

definition strip :: "string \<Rightarrow> string" where
  \<comment> \<open>\<open>s.strip()\<close>: leading and trailing whitespace removed.\<close>
  "strip s = rev (dropWhile isspace (rev (dropWhile isspace s)))"

definition startswith :: "string \<Rightarrow> string \<Rightarrow> bool" where
  \<comment> \<open>\<open>s.startswith(p)\<close>\<close>
  "startswith s p = (take (length p) s = p)"

fun py_split :: "string \<Rightarrow> string \<Rightarrow> string list" where
  \<comment> \<open>\<open>s.split(sep)\<close> for a non-empty \<open>sep\<close> (the source only passes the literals
      \<open>'\n'\<close> and \<open>' - '\<close>): cut at the non-overlapping occurrences, left to right.
      After a match at \<open>x # xs\<close> the scan resumes \<open>length sep\<close> characters later.\<close>
  "py_split sep [] = [[]]"
| "py_split sep (x # xs) =
     (if sep \<noteq> [] \<and> startswith (x # xs) sep
      then [] # py_split sep (drop (length sep - 1) xs)
      else (case py_split sep xs of [] \<Rightarrow> [[x]] | l # ls \<Rightarrow> (x # l) # ls))"

fun py_count :: "string \<Rightarrow> string \<Rightarrow> nat" where
  \<comment> \<open>\<open>s.count(sep)\<close> for a non-empty \<open>sep\<close>: the number of non-overlapping occurrences.\<close>
  "py_count sep [] = 0"
| "py_count sep (x # xs) =
     (if sep \<noteq> [] \<and> startswith (x # xs) sep
      then Suc (py_count sep (drop (length sep - 1) xs))
      else py_count sep xs)"

fun py_join :: "string \<Rightarrow> string list \<Rightarrow> string" where
  \<comment> \<open>\<open>sep.join(xs)\<close>\<close>
  "py_join sep [] = []"
| "py_join sep [l] = l"
| "py_join sep (l # ls) = l @ sep @ py_join sep ls"

definition nl :: string where
  "nl = [CHR 0x0A]"

definition fence :: string where
  "fence = [CHR 0x60, CHR 0x60, CHR 0x60]"

definition delim :: string where
  \<comment> \<open>the delimiter \<open>' - '\<close>\<close>
  "delim = '' - ''"

section \<open>Python values\<close>

text \<open>
  The values \<open>json.loads\<close> returns. A \<open>dict\<close> is an association list with distinct keys
  in insertion order; \<open>d[k] = v\<close> is \<open>AList.update k v d\<close> (in place when \<open>k\<close> is
  there, appended otherwise) and \<open>k in d\<close> is \<open>map_of d k \<noteq> None\<close>.
  A \<open>float\<close> is kept as its \<open>repr\<close> text: floating-point arithmetic is not modelled.
\<close>

datatype pyval =
    PyNone
  | PyBool bool
  | PyInt int
  | PyFloat string
  | PyStr string
  | PyList "pyval list"
  | PyDict "(string \<times> pyval) list"

type_synonym pydict = "(string \<times> pyval) list"

fun truthy :: "pyval \<Rightarrow> bool" where
  \<comment> \<open>the truth value Python's \<open>if v\<close> and \<open>a and v\<close> test\<close>
  "truthy PyNone = False"
| "truthy (PyBool b) = b"
| "truthy (PyInt i) = (i \<noteq> 0)"
| "truthy (PyFloat r) = (r \<noteq> ''0.0'' \<and> r \<noteq> ''-0.0'')"
| "truthy (PyStr s) = (s \<noteq> [])"
| "truthy (PyList xs) = (xs \<noteq> [])"
| "truthy (PyDict kvs) = (kvs \<noteq> [])"

fun str_nat :: "nat \<Rightarrow> string" where
  "str_nat n =
     (if n < 10 then [''0123456789'' ! n]
      else str_nat (n div 10) @ [''0123456789'' ! (n mod 10)])"

declare str_nat.simps [simp del]

definition str_int :: "int \<Rightarrow> string" where
  "str_int i = (if i < 0 then CHR ''-'' # str_nat (nat (- i)) else str_nat (nat i))"

definition hex2 :: "nat \<Rightarrow> string" where
  "hex2 n = [''0123456789abcdef'' ! (n div 16 mod 16), ''0123456789abcdef'' ! (n mod 16)]"

definition isprintable :: "char \<Rightarrow> bool" where
  \<comment> \<open>\<open>str.isprintable\<close> on one code point below 256\<close>
  "isprintable c =
     (let n = of_char c :: nat
      in 32 \<le> n \<and> n \<noteq> 127 \<and> \<not> (128 \<le> n \<and> n \<le> 160) \<and> n \<noteq> 173)"

definition repr_char :: "char \<Rightarrow> char \<Rightarrow> string" where
  "repr_char q c =
     (if c = q \<or> c = CHR 0x5C then [CHR 0x5C, c]
      else if c = CHR 0x09 then [CHR 0x5C, CHR ''t'']
      else if c = CHR 0x0A then [CHR 0x5C, CHR ''n'']
      else if c = CHR 0x0D then [CHR 0x5C, CHR ''r'']
      else if isprintable c then [c]
      else [CHR 0x5C, CHR ''x''] @ hex2 (of_char c))"

definition repr_str :: "string \<Rightarrow> string" where
  \<comment> \<open>\<open>repr(s)\<close> of a \<open>str\<close>: double quotes only when \<open>s\<close> has a single quote and no
      double quote\<close>
  "repr_str s =
     (let q = (if CHR 0x27 \<in> set s \<and> CHR 0x22 \<notin> set s then CHR 0x22 else CHR 0x27)
      in q # concat (map (repr_char q) s) @ [q])"

fun py_repr :: "pyval \<Rightarrow> string" where
  "py_repr PyNone = ''None''"
| "py_repr (PyBool b) = (if b then ''True'' else ''False'')"
| "py_repr (PyInt i) = str_int i"
| "py_repr (PyFloat r) = r"
| "py_repr (PyStr s) = repr_str s"
| "py_repr (PyList xs) = ''['' @ py_join '', '' (map py_repr xs) @ '']''"
| "py_repr (PyDict kvs) =
     ''{'' @ py_join '', '' (map (\<lambda>(k, v). repr_str k @ '': '' @ py_repr v) kvs) @ ''}''"

fun py_str :: "pyval \<Rightarrow> string" where
  \<comment> \<open>\<open>str(v)\<close>\<close>
  "py_str (PyStr s) = s"
| "py_str v = py_repr v"

text \<open>
  The exceptions that occur. \<open>JSONDecodeError\<close> is a subclass of \<open>ValueError\<close> in
  Python; \<open>ValueError\<close> stands here for a \<open>ValueError\<close> that is no \<open>JSONDecodeError\<close>, which
  \<open>except json.JSONDecodeError\<close> does not catch. \<open>Unmodelled\<close> is no exception of Python:
  it marks the inputs the decoder of this theory has no value for.
\<close>

datatype exn =
    TypeError
  | AttributeError
  | JSONDecodeError
  | ValueError
  | RecursionError
  | ConnectionError string
  | OtherException string
  | Unmodelled

fun py_iter :: "pyval \<Rightarrow> exn + pyval list" where
  \<comment> \<open>the items \<open>for item in v\<close> visits: the elements of a list, the characters of a
      \<open>str\<close>, the keys of a \<open>dict\<close>; any other value is not iterable\<close>
  "py_iter (PyList xs) = Inr xs"
| "py_iter (PyStr s) = Inr (map (\<lambda>c. PyStr [c]) s)"
| "py_iter (PyDict kvs) = Inr (map (\<lambda>(k, v). PyStr k) kvs)"
| "py_iter v = Inl TypeError"

section \<open>The JSON decoder\<close>

text \<open>
  \<open>json.loads\<close> belongs to Python's library, not to the program. It returns a value or
  raises: \<open>JSONDecodeError\<close> on a text that is not JSON, and also \<open>ValueError\<close> on an
  integer with more digits than the interpreter converts and \<open>RecursionError\<close> on a
  nesting deeper than its stack allows. The normalizer is therefore defined over any
  decoder \<open>loads\<close> of type \<open>string \<Rightarrow> exn + pyval\<close>, and the theorems about every text
  hold for every decoder.

  \<open>json_loads\<close> below follows the library's scanner (CPython 3.11 and later, with the
  default limit of 4300 digits for the conversion of an integer), to run the normalizer on
  concrete texts. It has no value for a number with a fraction or an exponent, for
  \<open>NaN\<close> and \<open>Infinity\<close>, and for a \<open>\u\<close> escape of 256 or more: there it answers
  \<open>Unmodelled\<close>, which is no exception of Python and says nothing about the program.
  The recursion limit depends on the build and on the call stack and is not modelled:
  \<open>json_loads\<close> never answers \<open>RecursionError\<close>.
\<close>

definition int_max_str_digits :: nat where
  \<comment> \<open>the default of \<open>sys.int_max_str_digits\<close>: \<open>int\<close> of a longer digit string raises
      \<open>ValueError\<close>\<close>
  "int_max_str_digits = 4300"

definition json_ws :: "char \<Rightarrow> bool" where
  "json_ws c = (c = CHR '' '' \<or> c = CHR 0x09 \<or> c = CHR 0x0A \<or> c = CHR 0x0D)"

definition skip_ws :: "string \<Rightarrow> string" where
  "skip_ws s = dropWhile json_ws s"

definition isdigit :: "char \<Rightarrow> bool" where
  "isdigit c = (c \<in> set ''0123456789'')"

definition hex_val :: "char \<Rightarrow> nat option" where
  "hex_val c =
     (let n = of_char c :: nat
      in if 48 \<le> n \<and> n \<le> 57 then Some (n - 48)
         else if 65 \<le> n \<and> n \<le> 70 then Some (n - 55)
         else if 97 \<le> n \<and> n \<le> 102 then Some (n - 87)
         else None)"

fun hex_num :: "nat \<Rightarrow> string \<Rightarrow> nat option" where
  "hex_num acc [] = Some acc"
| "hex_num acc (c # cs) =
     (case hex_val c of None \<Rightarrow> None | Some d \<Rightarrow> hex_num (16 * acc + d) cs)"

definition unescape :: "char \<Rightarrow> char option" where
  "unescape e =
     (if e = CHR 0x22 \<or> e = CHR 0x5C \<or> e = CHR ''/'' then Some e
      else if e = CHR ''b'' then Some (CHR 0x08)
      else if e = CHR ''f'' then Some (CHR 0x0C)
      else if e = CHR ''n'' then Some (CHR 0x0A)
      else if e = CHR ''r'' then Some (CHR 0x0D)
      else if e = CHR ''t'' then Some (CHR 0x09)
      else None)"

definition ok_map :: "('a \<Rightarrow> 'b) \<Rightarrow> exn + 'a \<Rightarrow> exn + 'b" where
  \<comment> \<open>the result changed by \<open>f\<close>, an exception passed on\<close>
  "ok_map f x = (case x of Inl e \<Rightarrow> Inl e | Inr a \<Rightarrow> Inr (f a))"

fun scanstring :: "string \<Rightarrow> exn + (string \<times> string)" where
  \<comment> \<open>the text after an opening double quote: the decoded string and what follows the
      closing quote\<close>
  "scanstring [] = Inl JSONDecodeError"
| "scanstring (c # cs) =
     (if c = CHR 0x22 then Inr ([], cs)
      else if c = CHR 0x5C then
        (case cs of
           [] \<Rightarrow> Inl JSONDecodeError
         | e # es \<Rightarrow>
             if e = CHR ''u'' then
               (if length es < 4 then Inl JSONDecodeError
                else case hex_num 0 (take 4 es) of
                       None \<Rightarrow> Inl JSONDecodeError
                     | Some n \<Rightarrow>
                         if 256 \<le> n then Inl Unmodelled
                         else ok_map (\<lambda>(s, r). (char_of n # s, r)) (scanstring (drop 4 es)))
             else
               (case unescape e of
                  None \<Rightarrow> Inl JSONDecodeError
                | Some ch \<Rightarrow> ok_map (\<lambda>(s, r). (ch # s, r)) (scanstring es)))
      else if (of_char c :: nat) < 32 then Inl JSONDecodeError
      else ok_map (\<lambda>(s, r). (c # s, r)) (scanstring cs))"

fun nat_of_digits :: "nat \<Rightarrow> string \<Rightarrow> nat" where
  "nat_of_digits acc [] = acc"
| "nat_of_digits acc (c # cs) = nat_of_digits (10 * acc + (of_char c - 48)) cs"

definition float_tail :: "string \<Rightarrow> bool" where
  \<comment> \<open>a fraction \<open>\.[0-9]+\<close> or an exponent \<open>[eE][-+]?[0-9]+\<close> follows\<close>
  "float_tail r =
     (case r of
        [] \<Rightarrow> False
      | c # cs \<Rightarrow>
          if c = CHR ''.'' then (case cs of [] \<Rightarrow> False | d # _ \<Rightarrow> isdigit d)
          else if c = CHR ''e'' \<or> c = CHR ''E'' then
            (case cs of
               [] \<Rightarrow> False
             | d # ds \<Rightarrow>
                 if d = CHR ''-'' \<or> d = CHR ''+''
                 then (case ds of [] \<Rightarrow> False | d' # _ \<Rightarrow> isdigit d')
                 else isdigit d)
          else False)"

definition scan_number :: "string \<Rightarrow> exn + (pyval \<times> string)" where
  \<comment> \<open>\<open>-?(0|[1-9][0-9]*)\<close>, an \<open>int\<close> when no fraction or exponent follows; the digits
      are converted once the end of the number is found, before what follows is looked at\<close>
  "scan_number s =
     (let neg = startswith s ''-'';
          r = (if neg then drop 1 s else s)
      in case r of
           [] \<Rightarrow> Inl JSONDecodeError
         | d # ds \<Rightarrow>
             if \<not> isdigit d then Inl JSONDecodeError
             else
               let ip = (if d = CHR ''0'' then [d] else takeWhile isdigit r);
                   rest = drop (length ip) r
               in if float_tail rest then Inl Unmodelled
                  else if int_max_str_digits < length ip then Inl ValueError
                  else Inr (PyInt ((if neg then - 1 else 1) * int (nat_of_digits 0 ip)), rest))"

definition dict_of :: "(string \<times> pyval) list \<Rightarrow> pydict" where
  \<comment> \<open>\<open>dict(pairs)\<close>: a repeated key keeps its first position and its last value\<close>
  "dict_of ps = fold (\<lambda>(k, v). AList.update k v) ps []"

fun scan_value :: "nat \<Rightarrow> string \<Rightarrow> exn + (pyval \<times> string)"
  and scan_members :: "nat \<Rightarrow> string \<Rightarrow> exn + ((string \<times> pyval) list \<times> string)"
  and scan_elements :: "nat \<Rightarrow> string \<Rightarrow> exn + (pyval list \<times> string)"
where
  "scan_value 0 s = Inl Unmodelled"
| "scan_value (Suc n) s =
     (case s of
        [] \<Rightarrow> Inl JSONDecodeError
      | c # cs \<Rightarrow>
          if c = CHR 0x22 then ok_map (\<lambda>(t, r). (PyStr t, r)) (scanstring cs)
          else if c = CHR ''{'' then
            (case skip_ws cs of
               [] \<Rightarrow> Inl JSONDecodeError
             | d # ds \<Rightarrow>
                 if d = CHR ''}'' then Inr (PyDict [], ds)
                 else ok_map (\<lambda>(ps, r). (PyDict (dict_of ps), r)) (scan_members n (d # ds)))
          else if c = CHR ''['' then
            (case skip_ws cs of
               [] \<Rightarrow> Inl JSONDecodeError
             | d # ds \<Rightarrow>
                 if d = CHR '']'' then Inr (PyList [], ds)
                 else ok_map (\<lambda>(vs, r). (PyList vs, r)) (scan_elements n (d # ds)))
          else if startswith s ''null'' then Inr (PyNone, drop 4 s)
          else if startswith s ''true'' then Inr (PyBool True, drop 4 s)
          else if startswith s ''false'' then Inr (PyBool False, drop 5 s)
          else if startswith s ''NaN'' \<or> startswith s ''Infinity'' \<or> startswith s ''-Infinity''
          then Inl Unmodelled
          else scan_number s)"
| "scan_members 0 s = Inl Unmodelled"
| "scan_members (Suc n) s =
     (case s of
        [] \<Rightarrow> Inl JSONDecodeError
      | c # cs \<Rightarrow>
          if c \<noteq> CHR 0x22 then Inl JSONDecodeError
          else
            (case scanstring cs of
               Inl e \<Rightarrow> Inl e
             | Inr (k, r) \<Rightarrow>
                 (case skip_ws r of
                    [] \<Rightarrow> Inl JSONDecodeError
                  | c2 # r2 \<Rightarrow>
                      if c2 \<noteq> CHR '':'' then Inl JSONDecodeError
                      else
                        (case scan_value n (skip_ws r2) of
                           Inl e \<Rightarrow> Inl e
                         | Inr (v, r3) \<Rightarrow>
                             (case skip_ws r3 of
                                [] \<Rightarrow> Inl JSONDecodeError
                              | c3 # r4 \<Rightarrow>
                                  if c3 = CHR ''}'' then Inr ([(k, v)], r4)
                                  else if c3 = CHR '','' then
                                    ok_map (\<lambda>(ps, r). ((k, v) # ps, r))
                                      (scan_members n (skip_ws r4))
                                  else Inl JSONDecodeError)))))"
| "scan_elements 0 s = Inl Unmodelled"
| "scan_elements (Suc n) s =
     (case scan_value n s of
        Inl e \<Rightarrow> Inl e
      | Inr (v, r) \<Rightarrow>
          (case skip_ws r of
             [] \<Rightarrow> Inl JSONDecodeError
           | c # r2 \<Rightarrow>
               if c = CHR '']'' then Inr ([v], r2)
               else if c = CHR '','' then
                 ok_map (\<lambda>(vs, r). (v # vs, r)) (scan_elements n (skip_ws r2))
               else Inl JSONDecodeError))"

definition json_loads :: "string \<Rightarrow> exn + pyval" where
  \<comment> \<open>one value between optional whitespace and nothing else. The first argument of the
      scanning functions bounds the nesting depth; a document has fewer levels than
      characters, so \<open>length s + 1\<close> is never used up.\<close>
  "json_loads s =
     (case scan_value (Suc (length s)) (skip_ws s) of
        Inl e \<Rightarrow> Inl e
      | Inr (v, r) \<Rightarrow> if skip_ws r = [] then Inr v else Inl JSONDecodeError)"

section \<open>The response normalizer: \<open>extract_json_from_response\<close>\<close>

definition strip_code_block :: "string \<Rightarrow> string" where
  \<comment> \<open>lines 59 to 66, on the stripped text. \<open>split\<close> returns at least one line, so
      \<open>lines[0]\<close> exists.\<close>
  "strip_code_block cleaned =
     (if startswith cleaned fence then
        (let lines = py_split nl cleaned;
             lines1 = (case lines of
                         [] \<Rightarrow> []
                       | l # ls \<Rightarrow> if startswith l fence then ls else l # ls);
             lines2 = (if lines1 \<noteq> [] \<and> startswith (last lines1) fence
                       then butlast lines1 else lines1)
         in py_join nl lines2)
      else cleaned)"

definition json_match :: "string \<Rightarrow> string option" where
  \<comment> \<open>\<open>re.search(r'\{[\s\S]*\}', cleaned)\<close>: the leftmost match starts at the first
      \<open>{\<close>, and the greedy \<open>[\s\S]*\<close> runs to the last \<open>}\<close> of the text; there is no
      match when no \<open>}\<close> comes after the first \<open>{\<close>.\<close>
  "json_match cleaned =
     (let rest = dropWhile (\<lambda>c. c \<noteq> CHR ''{'') cleaned;
          m = rev (dropWhile (\<lambda>c. c \<noteq> CHR ''}'') (rev rest))
      in if m = [] then None else Some m)"

definition required_keys :: "string list" where
  "required_keys =
     [''meeting_summary'', ''participants'', ''key_decisions'', ''action_items'',
      ''discussion_points'']"

definition list_keys :: "string list" where
  "list_keys = [''key_decisions'', ''action_items'', ''discussion_points'']"

definition default_value :: "string \<Rightarrow> pyval" where
  "default_value key =
     (if key \<noteq> ''meeting_summary'' then PyList [] else PyStr ''No summary available'')"

fun ensure_keys :: "string list \<Rightarrow> pydict \<Rightarrow> pydict" where
  \<comment> \<open>lines 76 to 78\<close>
  "ensure_keys [] parsed = parsed"
| "ensure_keys (key # keys) parsed =
     ensure_keys keys
       (if map_of parsed key = None then AList.update key (default_value key) parsed
        else parsed)"

fun clean_item :: "pyval \<Rightarrow> string list" where
  \<comment> \<open>lines 85 to 93: what one item adds to \<open>cleaned_items\<close>\<close>
  "clean_item (PyStr item) =
     (if 2 < py_count delim item
      then map strip (filter (\<lambda>s. strip s \<noteq> []) (py_split delim item))
      else [strip item])"
| "clean_item item = [py_str item]"

definition clean_items :: "pyval list \<Rightarrow> pyval" where
  "clean_items items = PyList (map PyStr (concat (map clean_item items)))"

fun split_items :: "string list \<Rightarrow> pydict \<Rightarrow> exn + pydict" where
  \<comment> \<open>lines 81 to 94\<close>
  "split_items [] parsed = Inr parsed"
| "split_items (key # keys) parsed =
     (case map_of parsed key of
        None \<Rightarrow> split_items keys parsed
      | Some v \<Rightarrow>
          if truthy v then
            (case py_iter v of
               Inl e \<Rightarrow> Inl e
             | Inr items \<Rightarrow> split_items keys (AList.update key (clean_items items) parsed))
          else split_items keys parsed)"

definition fallback :: "string \<Rightarrow> pydict" where
  \<comment> \<open>lines 102 to 108\<close>
  "fallback response_text =
     [(''key_decisions'', PyList [PyStr ''Unable to parse LLM response - JSON format error'']),
      (''action_items'', PyList [PyStr ''Try analyzing again or use a different model'']),
      (''discussion_points'',
         PyList [PyStr (''Raw response: '' @ take 300 response_text @ ''...'')]),
      (''participants'', PyList []),
      (''meeting_summary'',
         PyStr ''Error: Could not parse the LLM response into structured format'')]"

definition extract_with :: "(string \<Rightarrow> exn + pyval) \<Rightarrow> string \<Rightarrow> exn + pydict" where
  \<comment> \<open>\<open>extract_json_from_response\<close> over a decoder \<open>loads\<close>. Of what the decoder
      raises, \<open>except json.JSONDecodeError\<close> catches \<open>JSONDecodeError\<close> only; any other
      exception leaves the function. The match begins with \<open>{\<close>, so a value
      \<open>json.loads\<close> returns is a \<open>dict\<close>; on any other value line 77 or 78 would raise
      \<open>TypeError\<close>. The two \<open>print\<close> calls of the handler are left out.\<close>
  "extract_with loads response_text =
     (let cleaned = strip_code_block (strip response_text)
      in case json_match cleaned of
           None \<Rightarrow> Inr (fallback response_text)
         | Some m \<Rightarrow>
             (case loads m of
                Inl e \<Rightarrow> if e = JSONDecodeError then Inr (fallback response_text) else Inl e
              | Inr (PyDict parsed) \<Rightarrow> split_items list_keys (ensure_keys required_keys parsed)
              | Inr _ \<Rightarrow> Inl TypeError))"

definition extract_json_from_response :: "string \<Rightarrow> exn + pydict" where
  "extract_json_from_response = extract_with json_loads"

section \<open>The request handler: \<open>create_analysis_prompt\<close> and \<open>analyze_meeting\<close>\<close>

definition OLLAMA_MODEL :: string where
  "OLLAMA_MODEL = ''llama3.2''"

definition create_analysis_prompt :: "string \<Rightarrow> string" where
  \<open>create_analysis_prompt transcript =
     py_join nl
       [''You are a meeting analysis assistant. Analyze this transcript and extract key information.'',
        [],
        ''Meeting Transcript:'',
        transcript,
        [],
        ''CRITICAL: Return ONLY valid JSON. No markdown, no explanations, no code blocks. Just the JSON object.'',
        [],
        ''Required JSON structure:'',
        ''{'',
        ''    "meeting_summary": "2-3 sentence summary here",'',
        ''    "participants": ["Name1", "Name2"],'',
        ''    "key_decisions": ['',
        ''        "Decision 1 text here",'',
        ''        "Decision 2 text here"'',
        ''    ],'',
        ''    "action_items": ['',
        ''        "Action item 1 with owner and deadline",'',
        ''        "Action item 2 with owner and deadline"'',
        ''    ],'',
        ''    "discussion_points": ['',
        ''        "Discussion point 1",'',
        ''        "Discussion point 2"'',
        ''    ]'',
        ''}'',
        [],
        ''Rules:'',
        ''- Each array item must be a SEPARATE string, not concatenated'',
        ''- Extract 3-6 key decisions (major choices made)'',
        ''- Extract 3-6 action items (tasks with owners/deadlines)'',
        ''- Extract 4-8 discussion points (topics covered)'',
        ''- Keep each item to 1-2 sentences maximum'',
        ''- List all participant names'',
        ''- Return ONLY the JSON object, nothing else'']\<close>

record response =
  status :: nat
  body :: pydict

definition handle_exn :: "(exn \<Rightarrow> string) \<Rightarrow> exn \<Rightarrow> response" where
  \<comment> \<open>the two \<open>except\<close> clauses of \<open>analyze_meeting\<close>; \<open>str_e\<close> is \<open>str(e)\<close>, the
      interpreter's text of an exception\<close>
  "handle_exn str_e e =
     (case e of
        ConnectionError _ \<Rightarrow>
          \<lparr>status = 500,
           body = [(''error'', PyStr ''Cannot connect to Ollama''),
                   (''suggestion'', PyStr ''Make sure Ollama is running: ollama serve''),
                   (''details'', PyStr (str_e e))]\<rparr>
      | _ \<Rightarrow>
          \<lparr>status = 500,
           body = [(''error'', PyStr (''Error: '' @ str_e e)),
                   (''suggestion'',
                      PyStr (''Make sure model is available: ollama pull '' @ OLLAMA_MODEL))]\<rparr>)"

definition analyze_meeting ::
  "(string \<Rightarrow> exn + string) \<Rightarrow> (exn \<Rightarrow> string) \<Rightarrow> pyval \<Rightarrow> response \<times> string list" where
  \<comment> \<open>\<open>data\<close> is the decoded request body (\<open>request.json\<close>); \<open>chat\<close> is the call of
      the LLM runtime, returning the content of its message or raising. The result is
      the HTTP response together with the prompts sent to the runtime, in order: the
      empty list when the runtime was not invoked. \<open>get\<close> exists on a \<open>dict\<close> only and
      \<open>strip\<close> on a \<open>str\<close> only; elsewhere the attribute access raises. Nothing is
      stated about a response for which the decoder answers \<open>Unmodelled\<close>.\<close>
  "analyze_meeting chat str_e data =
     (case data of
        PyDict d \<Rightarrow>
          (case (case map_of d ''transcript'' of None \<Rightarrow> PyStr [] | Some v \<Rightarrow> v) of
             PyStr transcript \<Rightarrow>
               if strip transcript = [] then
                 (\<lparr>status = 400, body = [(''error'', PyStr ''Empty transcript'')]\<rparr>, [])
               else
                 (let prompt = create_analysis_prompt transcript
                  in case chat prompt of
                       Inl e \<Rightarrow> (handle_exn str_e e, [prompt])
                     | Inr response_text \<Rightarrow>
                         (case extract_json_from_response response_text of
                            Inl e \<Rightarrow> (handle_exn str_e e, [prompt])
                          | Inr analysis \<Rightarrow>
                              (\<lparr>status = 200,
                                body = [(''success'', PyBool True),
                                        (''analysis'', PyDict analysis),
                                        (''model_used'', PyStr OLLAMA_MODEL),
                                        (''raw_response'', PyStr response_text)]\<rparr>,
                               [prompt])))
           | _ \<Rightarrow> (handle_exn str_e AttributeError, []))
      | _ \<Rightarrow> (handle_exn str_e AttributeError, []))"

section \<open>Notions the properties are stated with\<close>

definition field_value :: "pyval \<Rightarrow> pyval" where
  \<comment> \<open>what the de-concatenation pass leaves in a list field holding \<open>v\<close>, when it returns\<close>
  "field_value v =
     (if truthy v then (case py_iter v of Inr items \<Rightarrow> clean_items items | Inl _ \<Rightarrow> v)
      else v)"

definition iterable :: "pyval \<Rightarrow> bool" where
  "iterable v = (case py_iter v of Inr _ \<Rightarrow> True | Inl _ \<Rightarrow> False)"

definition is_str :: "pyval \<Rightarrow> bool" where
  "is_str v = (case v of PyStr _ \<Rightarrow> True | _ \<Rightarrow> False)"

definition is_str_list :: "pyval \<Rightarrow> bool" where
  "is_str_list v = (case v of PyList xs \<Rightarrow> list_all is_str xs | _ \<Rightarrow> False)"

definition well_typed :: "pydict \<Rightarrow> bool" where
  \<comment> \<open>all five fields present with the types of the data model\<close>
  "well_typed d =
     ((case map_of d ''meeting_summary'' of Some v \<Rightarrow> is_str v | None \<Rightarrow> False) \<and>
      list_all (\<lambda>k. case map_of d k of Some v \<Rightarrow> is_str_list v | None \<Rightarrow> False)
        [''participants'', ''key_decisions'', ''action_items'', ''discussion_points''])"

definition items_of :: "pydict \<Rightarrow> string \<Rightarrow> pyval list" where
  "items_of d k = (case map_of d k of Some (PyList xs) \<Rightarrow> xs | _ \<Rightarrow> [])"

definition no_overconcat :: "pydict \<Rightarrow> bool" where
  \<comment> \<open>no item of a multi-item field holds the delimiter more than twice\<close>
  "no_overconcat d =
     list_all (\<lambda>k. list_all (\<lambda>x. py_count delim (py_str x) \<le> 2) (items_of d k)) list_keys"

definition items_trimmed :: "pydict \<Rightarrow> bool" where
  \<comment> \<open>no item of a multi-item field has leading or trailing whitespace\<close>
  "items_trimmed d =
     list_all (\<lambda>k. list_all (\<lambda>x. strip (py_str x) = py_str x) (items_of d k)) list_keys"

definition deconcat :: "pyval \<Rightarrow> string list" where
  \<comment> \<open>the de-concatenation rule in words: a string holding the delimiter more than twice
      is split on it, the pieces trimmed and the empty ones dropped; any other string is
      trimmed; a value that is not a string becomes its string representation\<close>
  "deconcat x =
     (case x of
        PyStr s \<Rightarrow>
          if 2 < py_count delim s
          then filter (\<lambda>p. p \<noteq> []) (map strip (py_split delim s))
          else [strip s]
      | _ \<Rightarrow> [py_str x])"

section \<open>Parse failure: the fallback record\<close>

text \<open>
  Whenever the stripped, unwrapped text has no brace span, or the decoder raises
  \<open>JSONDecodeError\<close> on the span, the normalizer returns exactly the fallback record: the
  two fixed messages, the raw response cut to its first 300 characters between
  \<open>Raw response: \<close> and \<open>...\<close>, no participants and the error summary. This holds for
  every decoder. The text \<open>not json at all\<close> has no brace span.
\<close>

lemma fallback_on_decode_error:
  assumes "json_match (strip_code_block (strip text)) = None \<or>
           (\<exists>m. json_match (strip_code_block (strip text)) = Some m \<and>
                loads m = Inl JSONDecodeError)"
  shows "extract_with loads text =
           Inr [(''key_decisions'',
                   PyList [PyStr ''Unable to parse LLM response - JSON format error'']),
                (''action_items'', PyList [PyStr ''Try analyzing again or use a different model'']),
                (''discussion_points'',
                   PyList [PyStr (''Raw response: '' @ take 300 text @ ''...'')]),
                (''participants'', PyList []),
                (''meeting_summary'',
                   PyStr ''Error: Could not parse the LLM response into structured format'')]"
  using assms by (auto simp: extract_with_def fallback_def)

lemma fallback_not_json:
  "json_match (strip_code_block (strip ''not json at all'')) = None \<and>
   extract_json_from_response ''not json at all'' =
     Inr [(''key_decisions'', PyList [PyStr ''Unable to parse LLM response - JSON format error'']),
          (''action_items'', PyList [PyStr ''Try analyzing again or use a different model'']),
          (''discussion_points'', PyList [PyStr ''Raw response: not json at all...'']),
          (''participants'', PyList []),
          (''meeting_summary'',
             PyStr ''Error: Could not parse the LLM response into structured format'')]"
proof -
  have h: "json_match (strip_code_block (strip ''not json at all'')) = None"
    by code_simp
  show ?thesis
    using h fallback_on_decode_error [of "''not json at all''" json_loads]
    by (simp add: extract_json_from_response_def)
qed

text \<open>
  An exception of the decoder other than \<open>JSONDecodeError\<close> leaves the normalizer.
\<close>

lemma decoder_exception_escapes:
  assumes "json_match (strip_code_block (strip text)) = Some m"
    and "loads m = Inl e" and "e \<noteq> JSONDecodeError"
  shows "extract_with loads text = Inl e"
  using assms by (simp add: extract_with_def)

section \<open>A field that cannot be iterated\<close>

text \<open>
  C1. The normalizer is not total: on the text \<open>{"key_decisions": 5}\<close> the decoder
  succeeds, the field is truthy, and the loop over it raises \<open>TypeError\<close>, which the
  handler of \<open>JSONDecodeError\<close> does not catch.
\<close>

theorem non_iterable_field_raises:
  \<open>extract_json_from_response ''{"key_decisions": 5}'' = Inl TypeError\<close>
  by code_simp

section \<open>Auxiliary facts\<close>

subsection \<open>Field completion and the de-concatenation pass\<close>

lemma map_of_ensure_keys:
  "map_of (ensure_keys keys parsed) k =
     (case map_of parsed k of
        Some v \<Rightarrow> Some v
      | None \<Rightarrow> if k \<in> set keys then Some (default_value k) else None)"
  by (induction keys arbitrary: parsed) (auto simp: update_conv' split: option.splits)

lemma ensure_keys_present:
  "\<forall>k \<in> set keys. map_of parsed k \<noteq> None \<Longrightarrow> ensure_keys keys parsed = parsed"
  by (induction keys arbitrary: parsed) auto

lemma field_value_falsy: "\<not> truthy v \<Longrightarrow> field_value v = v"
  by (simp add: field_value_def)

lemma field_value_iter:
  "truthy v \<Longrightarrow> py_iter v = Inr items \<Longrightarrow> field_value v = clean_items items"
  by (simp add: field_value_def)

lemma map_of_split_items:
  "distinct keys \<Longrightarrow> split_items keys parsed = Inr r \<Longrightarrow>
   map_of r k =
     (if k \<in> set keys then map_option field_value (map_of parsed k) else map_of parsed k)"
proof (induction keys arbitrary: parsed)
  case Nil
  then show ?case by simp
next
  case (Cons key keys)
  from Cons.prems have d: "distinct keys" and nk: "key \<notin> set keys" by auto
  show ?case
  proof (cases "map_of parsed key")
    case None
    with Cons.prems have "split_items keys parsed = Inr r" by simp
    from Cons.IH [OF d this] None show ?thesis by auto
  next
    case (Some v)
    show ?thesis
    proof (cases "truthy v")
      case False
      with Some Cons.prems have "split_items keys parsed = Inr r" by simp
      from Cons.IH [OF d this] Some False show ?thesis
        by (auto simp: field_value_falsy)
    next
      case True
      with Some Cons.prems obtain items where it: "py_iter v = Inr items"
        and rec: "split_items keys (AList.update key (clean_items items) parsed) = Inr r"
        by (auto split: sum.splits)
      from Cons.IH [OF d rec] Some True it nk show ?thesis
        by (auto simp: update_conv' field_value_iter)
    qed
  qed
qed

lemma split_items_returns:
  "distinct keys \<Longrightarrow>
   (\<exists>r. split_items keys parsed = Inr r) =
   (\<forall>k \<in> set keys. \<forall>v. map_of parsed k = Some v \<and> truthy v \<longrightarrow> iterable v)"
proof (induction keys arbitrary: parsed)
  case Nil
  then show ?case by simp
next
  case (Cons key keys)
  from Cons.prems have d: "distinct keys" and nk: "key \<notin> set keys" by auto
  have other: "\<And>w k. k \<in> set keys \<Longrightarrow> map_of (AList.update key w parsed) k = map_of parsed k"
    using nk by (auto simp: update_conv')
  show ?case
  proof (cases "map_of parsed key")
    case None
    then show ?thesis using Cons.IH [OF d, of parsed] by simp
  next
    case (Some v)
    show ?thesis
    proof (cases "truthy v")
      case False
      with Some show ?thesis using Cons.IH [OF d, of parsed] by simp
    next
      case True
      show ?thesis
      proof (cases "py_iter v")
        case (Inl e)
        with Some True show ?thesis by (auto simp: iterable_def)
      next
        case (Inr items)
        with Some True show ?thesis
          using Cons.IH [OF d, of "AList.update key (clean_items items) parsed"]
          by (simp add: other iterable_def)
      qed
    qed
  qed
qed

lemma split_items_unchanged:
  "\<forall>k \<in> set keys. \<forall>v. map_of parsed k = Some v \<and> truthy v \<longrightarrow>
      (\<exists>items. py_iter v = Inr items \<and> clean_items items = v) \<Longrightarrow>
   split_items keys parsed = Inr parsed"
proof (induction keys)
  case Nil
  then show ?case by simp
next
  case (Cons key keys)
  then have IH: "split_items keys parsed = Inr parsed" by simp
  show ?case
  proof (cases "map_of parsed key")
    case None
    with IH show ?thesis by simp
  next
    case (Some v)
    show ?thesis
    proof (cases "truthy v")
      case False
      with Some IH show ?thesis by simp
    next
      case True
      with Some Cons.prems obtain items where "py_iter v = Inr items" "clean_items items = v"
        by auto
      with Some True IH show ?thesis by (simp add: update_triv)
    qed
  qed
qed

lemma distinct_list_keys: "distinct list_keys"
  by (simp add: list_keys_def)

lemma clean_item_deconcat: "clean_item x = deconcat x"
  by (cases x) (simp_all add: deconcat_def filter_map comp_def)

subsection \<open>Whitespace and spans\<close>

lemma all_dropWhile: "(\<forall>c \<in> set (dropWhile P s). P c) \<longleftrightarrow> (\<forall>c \<in> set s. P c)"
  by (induction s) auto

lemma strip_empty_iff: "strip s = [] \<longleftrightarrow> (\<forall>c \<in> set s. isspace c)"
  by (simp add: strip_def all_dropWhile)

lemma dropWhile_stop: "\<not> P x \<Longrightarrow> dropWhile P (pre @ x # rest) = dropWhile P pre @ x # rest"
  by (induction pre) auto

lemma json_match_span:
  assumes "CHR ''{'' \<notin> set pre" "CHR ''}'' \<notin> set post"
  shows "json_match (pre @ CHR ''{'' # mid @ CHR ''}'' # post) = Some (CHR ''{'' # mid @ [CHR ''}''])"
proof -
  have 1: "dropWhile (\<lambda>c. c \<noteq> CHR ''{'') (pre @ CHR ''{'' # mid @ CHR ''}'' # post)
           = CHR ''{'' # mid @ CHR ''}'' # post"
    using assms(1) by (subst dropWhile_append2) auto
  have 2: "rev (CHR ''{'' # mid @ CHR ''}'' # post) = rev post @ CHR ''}'' # rev mid @ [CHR ''{'']"
    by simp
  have 3: "dropWhile (\<lambda>c. c \<noteq> CHR ''}'') (rev post @ CHR ''}'' # rev mid @ [CHR ''{''])
           = CHR ''}'' # rev mid @ [CHR ''{'']"
    using assms(2) by (subst dropWhile_append2) auto
  show ?thesis
    unfolding json_match_def Let_def 1 2 3 by simp
qed

lemma strip_around:
  "strip (pre @ CHR ''{'' # mid @ CHR ''}'' # post) =
     dropWhile isspace pre @ CHR ''{'' # mid @ CHR ''}'' # rev (dropWhile isspace (rev post))"
proof -
  have a: "\<not> isspace (CHR ''{'')" "\<not> isspace (CHR ''}'')" by (simp_all add: isspace_def)
  have "dropWhile isspace (pre @ CHR ''{'' # mid @ CHR ''}'' # post) =
          dropWhile isspace pre @ CHR ''{'' # mid @ CHR ''}'' # post"
    using a(1) by (rule dropWhile_stop)
  moreover have "rev (dropWhile isspace pre @ CHR ''{'' # mid @ CHR ''}'' # post) =
          rev post @ CHR ''}'' # (rev mid @ CHR ''{'' # rev (dropWhile isspace pre))"
    by simp
  moreover have "dropWhile isspace (rev post @ CHR ''}'' # (rev mid @ CHR ''{'' # rev (dropWhile isspace pre)))
          = dropWhile isspace (rev post) @ CHR ''}'' # (rev mid @ CHR ''{'' # rev (dropWhile isspace pre))"
    using a(2) by (rule dropWhile_stop)
  ultimately show ?thesis by (simp add: strip_def)
qed

section \<open>Locating the JSON object\<close>





subsection \<open>The two ways the normalizer returns\<close>

lemma extract_with_cases:
  assumes "extract_with loads text = Inr r"
  shows "r = fallback text \<or>
         (\<exists>m parsed. json_match (strip_code_block (strip text)) = Some m \<and>
            loads m = Inr (PyDict parsed) \<and>
            split_items list_keys (ensure_keys required_keys parsed) = Inr r)"
  using assms
  by (auto simp: extract_with_def split: option.splits sum.splits pyval.splits if_splits)

lemma field_value_default: "field_value (PyList []) = PyList []"
  by (simp add: field_value_def)

lemma py_count_single: "py_count delim [c] = 0"
  by (simp add: delim_def startswith_def)

lemma strip_single: "strip [c] = (if isspace c then [] else [c])"
  by (simp add: strip_def)

lemma clean_items_chars:
  "clean_items (map (\<lambda>c. PyStr [c]) s) = PyList (map (\<lambda>c. PyStr (if isspace c then [] else [c])) s)"
  by (induction s) (simp_all add: clean_items_def py_count_single strip_single)

lemma split_items_field:
  assumes "split_items list_keys (ensure_keys required_keys parsed) = Inr r"
    and "k \<in> set required_keys" and "map_of parsed k = Some v"
  shows "if k \<in> set list_keys \<and> truthy v
         then \<exists>items. py_iter v = Inr items \<and> map_of r k = Some (clean_items items)
         else map_of r k = Some v"
proof -
  have e: "map_of (ensure_keys required_keys parsed) k = Some v"
    using assms(3) by (simp add: map_of_ensure_keys)
  note mr = map_of_split_items [OF distinct_list_keys assms(1), of k]
  show ?thesis
  proof (cases "k \<in> set list_keys \<and> truthy v")
    case False
    with mr e show ?thesis by (auto simp: field_value_falsy)
  next
    case True
    have "\<exists>r. split_items list_keys (ensure_keys required_keys parsed) = Inr r"
      using assms(1) by blast
    then have "\<forall>k \<in> set list_keys. \<forall>v.
        map_of (ensure_keys required_keys parsed) k = Some v \<and> truthy v \<longrightarrow> iterable v"
      by (simp only: split_items_returns [OF distinct_list_keys])
    with True e have "iterable v" by blast
    then obtain items where it: "py_iter v = Inr items"
      by (auto simp: iterable_def split: sum.splits)
    with True mr e have "map_of r k = Some (clean_items items)"
      by (simp add: field_value_iter)
    with it True show ?thesis by simp
  qed
qed

section \<open>The five required fields\<close>

text \<open>
  C2, as the code has it. Whenever the normalizer returns a record, the record has all
  five required keys. A key the parsed object lacks gets its default: the sentinel
  \<open>No summary available\<close> for the summary, the empty list for the four others. A key
  the parsed object has is never given a default: the summary, the participants and a
  falsy value of one of the three multi-item list fields stay as they are, and a truthy
  value of such a field is replaced by the items the de-concatenation pass makes of it.
  So a field of the record is null exactly when the parsed object has it as null. On the
  fallback path all five values are present and none is null.
\<close>

theorem required_fields_present:
  assumes "extract_with loads text = Inr r"
  shows "(\<forall>k \<in> set required_keys. map_of r k \<noteq> None) \<and>
         (\<forall>m parsed k.
            json_match (strip_code_block (strip text)) = Some m \<and>
            loads m = Inr (PyDict parsed) \<and> k \<in> set required_keys \<and> map_of parsed k = None \<longrightarrow>
            map_of r k =
              Some (if k = ''meeting_summary'' then PyStr ''No summary available'' else PyList [])) \<and>
         (\<forall>m parsed k v.
            json_match (strip_code_block (strip text)) = Some m \<and>
            loads m = Inr (PyDict parsed) \<and> k \<in> set required_keys \<and> map_of parsed k = Some v \<longrightarrow>
            (if k \<in> set list_keys \<and> truthy v
             then \<exists>items. py_iter v = Inr items \<and> map_of r k = Some (clean_items items)
             else map_of r k = Some v)) \<and>
         (\<forall>m parsed k.
            json_match (strip_code_block (strip text)) = Some m \<and>
            loads m = Inr (PyDict parsed) \<and> k \<in> set required_keys \<longrightarrow>
            (map_of r k = Some PyNone \<longleftrightarrow> map_of parsed k = Some PyNone)) \<and>
         (json_match (strip_code_block (strip text)) = None \<or>
          (\<exists>m. json_match (strip_code_block (strip text)) = Some m \<and>
               loads m = Inl JSONDecodeError) \<longrightarrow>
            (\<forall>k \<in> set required_keys. \<exists>v. map_of r k = Some v \<and> v \<noteq> PyNone))"
proof -
  have absent: "map_of r k =
      Some (if k = ''meeting_summary'' then PyStr ''No summary available'' else PyList [])"
    if h: "json_match (strip_code_block (strip text)) = Some m"
      "loads m = Inr (PyDict parsed)" "k \<in> set required_keys" "map_of parsed k = None"
    for m parsed k
  proof -
    have s: "split_items list_keys (ensure_keys required_keys parsed) = Inr r"
      using assms h(1,2) by (simp add: extract_with_def)
    have e: "map_of (ensure_keys required_keys parsed) k = Some (default_value k)"
      using h(3,4) by (simp add: map_of_ensure_keys)
    have "k \<in> set list_keys \<Longrightarrow> default_value k = PyList []"
      by (auto simp: list_keys_def default_value_def)
    then have "map_of r k = Some (default_value k)"
      by (auto simp: map_of_split_items [OF distinct_list_keys s] e field_value_default)
    then show ?thesis by (simp add: default_value_def)
  qed
  have present: "if k \<in> set list_keys \<and> truthy v
             then \<exists>items. py_iter v = Inr items \<and> map_of r k = Some (clean_items items)
             else map_of r k = Some v"
    if h: "json_match (strip_code_block (strip text)) = Some m"
      "loads m = Inr (PyDict parsed)" "k \<in> set required_keys" "map_of parsed k = Some v"
    for m parsed k v
  proof -
    have s: "split_items list_keys (ensure_keys required_keys parsed) = Inr r"
      using assms h(1,2) by (simp add: extract_with_def)
    from s h(3,4) show ?thesis by (rule split_items_field)
  qed
  have null: "map_of r k = Some PyNone \<longleftrightarrow> map_of parsed k = Some PyNone"
    if h: "json_match (strip_code_block (strip text)) = Some m"
      "loads m = Inr (PyDict parsed)" "k \<in> set required_keys"
    for m parsed k
  proof (cases "map_of parsed k")
    case None
    with absent [OF h this] show ?thesis by simp
  next
    case (Some v)
    with present [OF h this] show ?thesis
      by (auto simp: clean_items_def split: if_splits)
  qed
  have every: "\<forall>k \<in> set required_keys. map_of r k \<noteq> None"
  proof
    fix k assume k: "k \<in> set required_keys"
    from extract_with_cases [OF assms] show "map_of r k \<noteq> None"
    proof
      assume "r = fallback text"
      with k show ?thesis by (auto simp: fallback_def required_keys_def)
    next
      assume "\<exists>m parsed. json_match (strip_code_block (strip text)) = Some m \<and>
            loads m = Inr (PyDict parsed) \<and>
            split_items list_keys (ensure_keys required_keys parsed) = Inr r"
      then obtain parsed where s: "split_items list_keys (ensure_keys required_keys parsed) = Inr r"
        by blast
      have "map_of (ensure_keys required_keys parsed) k \<noteq> None"
        using k by (simp add: map_of_ensure_keys split: option.splits)
      then show ?thesis
        by (simp add: map_of_split_items [OF distinct_list_keys s])
    qed
  qed
  have fb: "\<forall>k \<in> set required_keys. \<exists>v. map_of r k = Some v \<and> v \<noteq> PyNone"
    if "json_match (strip_code_block (strip text)) = None \<or>
          (\<exists>m. json_match (strip_code_block (strip text)) = Some m \<and>
               loads m = Inl JSONDecodeError)"
  proof -
    from that have "extract_with loads text = Inr (fallback text)"
      by (auto simp: extract_with_def)
    with assms have "r = fallback text" by simp
    then show ?thesis by (simp add: fallback_def required_keys_def)
  qed
  from every absent present null fb show ?thesis by blast
qed

theorem required_fields_present_witness:
  \<open>extract_json_from_response ''{"participants": null, "key_decisions": [" a ", 5]}'' =
     Inr [(''participants'', PyNone), (''key_decisions'', PyList [PyStr ''a'', PyStr ''5'']),
          (''meeting_summary'', PyStr ''No summary available''),
          (''action_items'', PyList []), (''discussion_points'', PyList [])] \<and>
   map_of [(''participants'', PyNone), (''key_decisions'', PyList [PyStr ''a'', PyStr ''5'']),
           (''meeting_summary'', PyStr ''No summary available''),
           (''action_items'', PyList []), (''discussion_points'', PyList [])] ''meeting_summary'' =
     Some (PyStr ''No summary available'') \<and>
   map_of [(''participants'', PyNone), (''key_decisions'', PyList [PyStr ''a'', PyStr ''5'']),
           (''meeting_summary'', PyStr ''No summary available''),
           (''action_items'', PyList []), (''discussion_points'', PyList [])] ''discussion_points'' =
     Some (PyList []) \<and>
   map_of [(''participants'', PyNone), (''key_decisions'', PyList [PyStr ''a'', PyStr ''5'']),
           (''meeting_summary'', PyStr ''No summary available''),
           (''action_items'', PyList []), (''discussion_points'', PyList [])] ''participants'' =
     Some PyNone \<and>
   map_of [(''participants'', PyNone), (''key_decisions'', PyList [PyStr ''a'', PyStr ''5'']),
           (''meeting_summary'', PyStr ''No summary available''),
           (''action_items'', PyList []), (''discussion_points'', PyList [])] ''key_decisions'' =
     Some (clean_items [PyStr '' a '', PyInt 5])\<close>
proof -
  let ?T = \<open>''{"participants": null, "key_decisions": [" a ", 5]}''\<close>
  let ?P = "[(''participants'', PyNone), (''key_decisions'', PyList [PyStr '' a '', PyInt 5])]"
  let ?R = "[(''participants'', PyNone), (''key_decisions'', PyList [PyStr ''a'', PyStr ''5'']),
          (''meeting_summary'', PyStr ''No summary available''),
          (''action_items'', PyList []), (''discussion_points'', PyList [])]"
  have h: "extract_with json_loads ?T = Inr ?R" by code_simp
  have m: "json_match (strip_code_block (strip ?T)) = Some ?T" by code_simp
  have l: "json_loads ?T = Inr (PyDict ?P)" by code_simp
  note t = required_fields_present [OF h]
  from t have absent: "\<And>k. k \<in> set required_keys \<Longrightarrow> map_of ?P k = None \<Longrightarrow>
      map_of ?R k =
        Some (if k = ''meeting_summary'' then PyStr ''No summary available'' else PyList [])"
    using m l by blast
  from t have present: "\<And>k v. k \<in> set required_keys \<Longrightarrow> map_of ?P k = Some v \<Longrightarrow>
      (if k \<in> set list_keys \<and> truthy v
       then \<exists>items. py_iter v = Inr items \<and> map_of ?R k = Some (clean_items items)
       else map_of ?R k = Some v)"
    using m l by blast
  have 1: "map_of ?R ''meeting_summary'' = Some (PyStr ''No summary available'')"
    using absent [of "''meeting_summary''"] by (simp add: required_keys_def)
  have 2: "map_of ?R ''discussion_points'' = Some (PyList [])"
    using absent [of "''discussion_points''"] by (simp add: required_keys_def)
  have 3: "map_of ?R ''participants'' = Some PyNone"
    using present [of "''participants''" PyNone] by (simp add: required_keys_def)
  have 4: "map_of ?R ''key_decisions'' = Some (clean_items [PyStr '' a '', PyInt 5])"
    using present [of "''key_decisions''" "PyList [PyStr '' a '', PyInt 5]"]
    by (simp add: required_keys_def list_keys_def)
  from h 1 2 3 4 show ?thesis by (simp only: extract_json_from_response_def simp_thms)
qed

text \<open>
  C2 as stated fails on a field given as null: the key is in the parsed object, so line 77
  adds no default, and \<open>None\<close> is falsy, so the pass of line 82 skips it. The record
  returned has null participants and a null summary.
\<close>

theorem null_field_counterexample:
  \<open>extract_json_from_response ''{"participants": null, "meeting_summary": null}'' =
     Inr [(''participants'', PyNone), (''meeting_summary'', PyNone),
          (''key_decisions'', PyList []), (''action_items'', PyList []),
          (''discussion_points'', PyList [])]\<close>
  by code_simp

section \<open>Fields the de-concatenation pass leaves alone\<close>

text \<open>
  C9. When the decoder returns an object and the normalizer returns a record, every key of
  the object outside the three multi-item list fields, \<open>participants\<close> and
  \<open>meeting_summary\<close> among them, has in the record the value it has in the object,
  whatever its type.
\<close>

theorem other_fields_unchanged:
  assumes "json_match (strip_code_block (strip text)) = Some m"
    and "loads m = Inr (PyDict parsed)"
    and "extract_with loads text = Inr r"
    and "k \<notin> set list_keys"
    and "map_of parsed k = Some v"
  shows "map_of r k = Some v"
proof -
  have s: "split_items list_keys (ensure_keys required_keys parsed) = Inr r"
    using assms(1,2,3) by (simp add: extract_with_def)
  show ?thesis
    using assms(4,5) by (simp add: map_of_split_items [OF distinct_list_keys s] map_of_ensure_keys)
qed

theorem other_fields_unchanged_witness:
  \<open>json_match (strip_code_block (strip
       ''{"participants": null, "meeting_summary": 7, "key_decisions": ["a - b - c - d"]}'')) =
     Some ''{"participants": null, "meeting_summary": 7, "key_decisions": ["a - b - c - d"]}'' \<and>
   json_loads ''{"participants": null, "meeting_summary": 7, "key_decisions": ["a - b - c - d"]}'' =
     Inr (PyDict [(''participants'', PyNone), (''meeting_summary'', PyInt 7),
                   (''key_decisions'', PyList [PyStr ''a - b - c - d''])]) \<and>
   extract_json_from_response
       ''{"participants": null, "meeting_summary": 7, "key_decisions": ["a - b - c - d"]}'' =
     Inr [(''participants'', PyNone), (''meeting_summary'', PyInt 7),
          (''key_decisions'', PyList [PyStr ''a'', PyStr ''b'', PyStr ''c'', PyStr ''d'']),
          (''action_items'', PyList []), (''discussion_points'', PyList [])] \<and>
   ''participants'' \<notin> set list_keys \<and>
   map_of [(''participants'', PyNone), (''meeting_summary'', PyInt 7),
           (''key_decisions'', PyList [PyStr ''a - b - c - d''])] ''participants'' = Some PyNone \<and>
   map_of [(''participants'', PyNone), (''meeting_summary'', PyInt 7),
           (''key_decisions'', PyList [PyStr ''a'', PyStr ''b'', PyStr ''c'', PyStr ''d'']),
           (''action_items'', PyList []), (''discussion_points'', PyList [])] ''participants'' =
     Some PyNone\<close>
proof -
  let ?T = \<open>''{"participants": null, "meeting_summary": 7, "key_decisions": ["a - b - c - d"]}''\<close>
  let ?P = "[(''participants'', PyNone), (''meeting_summary'', PyInt 7),
           (''key_decisions'', PyList [PyStr ''a - b - c - d''])]"
  let ?R = "[(''participants'', PyNone), (''meeting_summary'', PyInt 7),
          (''key_decisions'', PyList [PyStr ''a'', PyStr ''b'', PyStr ''c'', PyStr ''d'']),
          (''action_items'', PyList []), (''discussion_points'', PyList [])]"
  have m: "json_match (strip_code_block (strip ?T)) = Some ?T" by code_simp
  have l: "json_loads ?T = Inr (PyDict ?P)" by code_simp
  have h: "extract_with json_loads ?T = Inr ?R" by code_simp
  have k: "''participants'' \<notin> set list_keys" by (simp add: list_keys_def)
  have v: "map_of ?P ''participants'' = Some PyNone" by simp
  from other_fields_unchanged [OF m l h k v] m l h k v show ?thesis
    by (simp only: extract_json_from_response_def simp_thms)
qed

section \<open>A multi-item field given as a string\<close>

text \<open>
  C10. When one of the three multi-item list fields of the parsed object is a non-empty
  string and the normalizer returns a record, the field of the record is the list of the
  characters of the string, one single-character string each, a whitespace character
  giving the empty string.
\<close>

theorem string_field_iterated:
  assumes "json_match (strip_code_block (strip text)) = Some m"
    and "loads m = Inr (PyDict parsed)"
    and "extract_with loads text = Inr r"
    and "key \<in> set list_keys"
    and "map_of parsed key = Some (PyStr s)"
    and "s \<noteq> []"
  shows "map_of r key = Some (PyList (map (\<lambda>c. PyStr (if isspace c then [] else [c])) s))"
proof -
  have sp: "split_items list_keys (ensure_keys required_keys parsed) = Inr r"
    using assms(1,2,3) by (simp add: extract_with_def)
  have "field_value (PyStr s) = PyList (map (\<lambda>c. PyStr (if isspace c then [] else [c])) s)"
    using assms(6) by (simp add: field_value_def clean_items_chars)
  then show ?thesis
    using assms(4,5) by (simp add: map_of_split_items [OF distinct_list_keys sp] map_of_ensure_keys)
qed

theorem string_field_iterated_witness:
  \<open>json_match (strip_code_block (strip ''{"key_decisions": "A B"}'')) =
     Some ''{"key_decisions": "A B"}'' \<and>
   json_loads ''{"key_decisions": "A B"}'' = Inr (PyDict [(''key_decisions'', PyStr ''A B'')]) \<and>
   extract_json_from_response ''{"key_decisions": "A B"}'' =
     Inr [(''key_decisions'', PyList [PyStr ''A'', PyStr [], PyStr ''B'']),
          (''meeting_summary'', PyStr ''No summary available''), (''participants'', PyList []),
          (''action_items'', PyList []), (''discussion_points'', PyList [])] \<and>
   ''key_decisions'' \<in> set list_keys \<and>
   map_of [(''key_decisions'', PyStr ''A B'')] ''key_decisions'' = Some (PyStr ''A B'') \<and>
   ''A B'' \<noteq> [] \<and>
   map_of [(''key_decisions'', PyList [PyStr ''A'', PyStr [], PyStr ''B'']),
           (''meeting_summary'', PyStr ''No summary available''), (''participants'', PyList []),
           (''action_items'', PyList []), (''discussion_points'', PyList [])] ''key_decisions'' =
     Some (PyList [PyStr ''A'', PyStr [], PyStr ''B''])\<close>
proof -
  let ?T = \<open>''{"key_decisions": "A B"}''\<close>
  let ?P = "[(''key_decisions'', PyStr ''A B'')]"
  let ?R = "[(''key_decisions'', PyList [PyStr ''A'', PyStr [], PyStr ''B'']),
          (''meeting_summary'', PyStr ''No summary available''), (''participants'', PyList []),
          (''action_items'', PyList []), (''discussion_points'', PyList [])]"
  have m: "json_match (strip_code_block (strip ?T)) = Some ?T" by code_simp
  have l: "json_loads ?T = Inr (PyDict ?P)" by code_simp
  have h: "extract_with json_loads ?T = Inr ?R" by code_simp
  have k: "''key_decisions'' \<in> set list_keys" by (simp add: list_keys_def)
  have v: "map_of ?P ''key_decisions'' = Some (PyStr ''A B'')" by simp
  have n: "''A B'' \<noteq> []" by simp
  have e: "PyList (map (\<lambda>c. PyStr (if isspace c then [] else [c])) ''A B'') =
           PyList [PyStr ''A'', PyStr [], PyStr ''B'']"
    by code_simp
  from string_field_iterated [OF m l h k v n] m l h k v n show ?thesis
    by (simp only: extract_json_from_response_def e simp_thms)
qed

section \<open>Item de-concatenation\<close>

text \<open>
  C4, as the code has it. When one of the three multi-item list fields of the parsed
  object is a list and the normalizer returns a record, the field of the record is the
  list obtained by replacing every element, in order and at its position, by: the
  trimmed non-empty pieces of its split on \<open>' - '\<close> when it is a string holding the
  delimiter more than twice; itself trimmed when it is any other string; its string
  representation, neither split nor trimmed, when it is not a string.
\<close>

theorem deconcat_items:
  assumes "json_match (strip_code_block (strip text)) = Some m"
    and "loads m = Inr (PyDict parsed)"
    and "extract_with loads text = Inr r"
    and "key \<in> set list_keys"
    and "map_of parsed key = Some (PyList items)"
  shows "map_of r key = Some (PyList (map PyStr (concat (map deconcat items))))"
proof -
  have sp: "split_items list_keys (ensure_keys required_keys parsed) = Inr r"
    using assms(1,2,3) by (simp add: extract_with_def)
  have "(\<lambda>x. clean_item x) = deconcat" by (rule ext) (rule clean_item_deconcat)
  then have "field_value (PyList items) = PyList (map PyStr (concat (map deconcat items)))"
    by (cases items) (simp_all add: field_value_def clean_items_def)
  then show ?thesis
    using assms(4,5) by (simp add: map_of_split_items [OF distinct_list_keys sp] map_of_ensure_keys)
qed

theorem deconcat_items_witness:
  \<open>json_match (strip_code_block (strip ''{"key_decisions": ["A - B - C - D", "A - B", 7]}'')) =
     Some ''{"key_decisions": ["A - B - C - D", "A - B", 7]}'' \<and>
   json_loads ''{"key_decisions": ["A - B - C - D", "A - B", 7]}'' =
     Inr (PyDict [(''key_decisions'', PyList [PyStr ''A - B - C - D'', PyStr ''A - B'', PyInt 7])]) \<and>
   extract_json_from_response ''{"key_decisions": ["A - B - C - D", "A - B", 7]}'' =
     Inr [(''key_decisions'',
             PyList [PyStr ''A'', PyStr ''B'', PyStr ''C'', PyStr ''D'', PyStr ''A - B'', PyStr ''7'']),
          (''meeting_summary'', PyStr ''No summary available''), (''participants'', PyList []),
          (''action_items'', PyList []), (''discussion_points'', PyList [])] \<and>
   ''key_decisions'' \<in> set list_keys \<and>
   map_of [(''key_decisions'', PyList [PyStr ''A - B - C - D'', PyStr ''A - B'', PyInt 7])]
       ''key_decisions'' =
     Some (PyList [PyStr ''A - B - C - D'', PyStr ''A - B'', PyInt 7]) \<and>
   map_of [(''key_decisions'',
              PyList [PyStr ''A'', PyStr ''B'', PyStr ''C'', PyStr ''D'', PyStr ''A - B'', PyStr ''7'']),
           (''meeting_summary'', PyStr ''No summary available''), (''participants'', PyList []),
           (''action_items'', PyList []), (''discussion_points'', PyList [])] ''key_decisions'' =
     Some (PyList [PyStr ''A'', PyStr ''B'', PyStr ''C'', PyStr ''D'', PyStr ''A - B'', PyStr ''7''])\<close>
proof -
  let ?T = \<open>''{"key_decisions": ["A - B - C - D", "A - B", 7]}''\<close>
  let ?I = "[PyStr ''A - B - C - D'', PyStr ''A - B'', PyInt 7]"
  let ?P = "[(''key_decisions'', PyList ?I)]"
  let ?R = "[(''key_decisions'',
             PyList [PyStr ''A'', PyStr ''B'', PyStr ''C'', PyStr ''D'', PyStr ''A - B'', PyStr ''7'']),
          (''meeting_summary'', PyStr ''No summary available''), (''participants'', PyList []),
          (''action_items'', PyList []), (''discussion_points'', PyList [])]"
  have m: "json_match (strip_code_block (strip ?T)) = Some ?T" by code_simp
  have l: "json_loads ?T = Inr (PyDict ?P)" by code_simp
  have h: "extract_with json_loads ?T = Inr ?R" by code_simp
  have k: "''key_decisions'' \<in> set list_keys" by (simp add: list_keys_def)
  have v: "map_of ?P ''key_decisions'' = Some (PyList ?I)" by simp
  have e: "PyList (map PyStr (concat (map deconcat ?I))) =
           PyList [PyStr ''A'', PyStr ''B'', PyStr ''C'', PyStr ''D'', PyStr ''A - B'', PyStr ''7'']"
    by code_simp
  from deconcat_items [OF m l h k v] m l h k v show ?thesis
    by (simp only: extract_json_from_response_def e simp_thms)
qed

text \<open>
  C4 as stated fails on an element that is not a string: the nested list
  \<open>["a - b - c - d"]\<close> has a string representation holding the delimiter three times,
  and it is kept as one element; only the branch for strings splits.
\<close>

theorem unsplit_non_string_counterexample:
  \<open>py_count delim (py_str (PyList [PyStr ''a - b - c - d''])) = 3 \<and>
   json_loads ''{"key_decisions": [["a - b - c - d"]]}'' =
     Inr (PyDict [(''key_decisions'', PyList [PyList [PyStr ''a - b - c - d'']])]) \<and>
   extract_json_from_response ''{"key_decisions": [["a - b - c - d"]]}'' =
     Inr [(''key_decisions'', PyList [PyStr ''['a - b - c - d']'']),
          (''meeting_summary'', PyStr ''No summary available''), (''participants'', PyList []),
          (''action_items'', PyList []), (''discussion_points'', PyList [])]\<close>
  by code_simp

subsection \<open>Items that the pass leaves as they are\<close>

lemma clean_items_trimmed:
  assumes "list_all is_str xs"
    and "list_all (\<lambda>x. py_count delim (py_str x) \<le> 2) xs"
    and "list_all (\<lambda>x. strip (py_str x) = py_str x) xs"
  shows "clean_items xs = PyList xs"
proof -
  have "map PyStr (concat (map clean_item xs)) = xs"
    using assms
  proof (induction xs)
    case Nil
    then show ?case by simp
  next
    case (Cons x xs)
    then obtain s where "x = PyStr s" by (cases x) (auto simp: is_str_def)
    with Cons show ?case by simp
  qed
  then show ?thesis by (simp add: clean_items_def)
qed

lemma well_typed_list_field:
  assumes "well_typed d" and "k \<in> set list_keys"
  obtains xs where "map_of d k = Some (PyList xs)" and "list_all is_str xs"
proof -
  from assms have "case map_of d k of Some v \<Rightarrow> is_str_list v | None \<Rightarrow> False"
    by (auto simp: well_typed_def list_keys_def)
  then obtain v where v: "map_of d k = Some v" "is_str_list v"
    by (auto split: option.splits)
  then obtain xs where "v = PyList xs" "list_all is_str xs"
    by (cases v) (auto simp: is_str_list_def)
  with v that show thesis by simp
qed

lemma well_typed_present: "well_typed d \<Longrightarrow> k \<in> set required_keys \<Longrightarrow> map_of d k \<noteq> None"
  by (auto simp: well_typed_def required_keys_def split: option.splits)

lemma strip_object: "strip (CHR ''{'' # mid @ [CHR ''}'']) = CHR ''{'' # mid @ [CHR ''}'']"
  using strip_around [of "[]" mid "[]"] by simp

section \<open>Well-formed input\<close>

text \<open>
  C6, as the code has it. When the stripped text is an object from its first character
  \<open>{\<close> to its last character \<open>}\<close>, the decoder returns for it an object with all five
  fields typed as in the data model, and every item of the three multi-item list fields
  holds the delimiter at most twice and has no leading or trailing whitespace, the
  normalizer returns that object unchanged, keys in the same order.
\<close>

theorem well_formed_unchanged:
  assumes "strip text = CHR ''{'' # mid @ [CHR ''}'']"
    and "loads (strip text) = Inr (PyDict parsed)"
    and "well_typed parsed"
    and "no_overconcat parsed"
    and "items_trimmed parsed"
  shows "extract_with loads text = Inr parsed"
proof -
  have "\<not> startswith (strip text) fence"
    by (simp add: assms(1) startswith_def fence_def)
  then have "strip_code_block (strip text) = strip text"
    by (simp add: strip_code_block_def)
  moreover have "json_match (strip text) = Some (strip text)"
    using json_match_span [of "[]" "[]" mid] by (simp add: assms(1))
  ultimately have m: "json_match (strip_code_block (strip text)) = Some (strip text)"
    by simp
  have e: "ensure_keys required_keys parsed = parsed"
    using well_typed_present [OF assms(3)] by (intro ensure_keys_present) blast
  have "split_items list_keys parsed = Inr parsed"
  proof (rule split_items_unchanged, intro ballI allI impI)
    fix k v
    assume k: "k \<in> set list_keys" and v: "map_of parsed k = Some v \<and> truthy v"
    from well_typed_list_field [OF assms(3) k] obtain xs
      where xs: "map_of parsed k = Some (PyList xs)" "list_all is_str xs" by blast
    from xs have io: "items_of parsed k = xs" by (simp add: items_of_def)
    from assms(4) k io have c: "list_all (\<lambda>x. py_count delim (py_str x) \<le> 2) xs"
      by (auto simp: no_overconcat_def list_all_iff)
    from assms(5) k io have t: "list_all (\<lambda>x. strip (py_str x) = py_str x) xs"
      by (auto simp: items_trimmed_def list_all_iff)
    from xs v have "v = PyList xs" by simp
    with clean_items_trimmed [OF xs(2) c t]
    show "\<exists>items. py_iter v = Inr items \<and> clean_items items = v" by simp
  qed
  with m e assms(2) show ?thesis by (simp add: extract_with_def)
qed

theorem well_formed_unchanged_witness:
  \<open>strip (''  {"meeting_summary": "Weekly sync.", "participants": ["Ann", "Bob"], "key_decisions": ["Ship - on Friday"], "action_items": [], "discussion_points": ["Budget", "Hiring"]} '') =
     CHR ''{'' # ''"meeting_summary": "Weekly sync.", "participants": ["Ann", "Bob"], "key_decisions": ["Ship - on Friday"], "action_items": [], "discussion_points": ["Budget", "Hiring"]'' @ [CHR ''}''] \<and>
   json_loads (strip ''  {"meeting_summary": "Weekly sync.", "participants": ["Ann", "Bob"], "key_decisions": ["Ship - on Friday"], "action_items": [], "discussion_points": ["Budget", "Hiring"]} '') =
     Inr (PyDict [(''meeting_summary'', PyStr ''Weekly sync.''),
                   (''participants'', PyList [PyStr ''Ann'', PyStr ''Bob'']),
                   (''key_decisions'', PyList [PyStr ''Ship - on Friday'']),
                   (''action_items'', PyList []),
                   (''discussion_points'', PyList [PyStr ''Budget'', PyStr ''Hiring''])]) \<and>
   well_typed [(''meeting_summary'', PyStr ''Weekly sync.''),
               (''participants'', PyList [PyStr ''Ann'', PyStr ''Bob'']),
               (''key_decisions'', PyList [PyStr ''Ship - on Friday'']),
               (''action_items'', PyList []),
               (''discussion_points'', PyList [PyStr ''Budget'', PyStr ''Hiring''])] \<and>
   no_overconcat [(''meeting_summary'', PyStr ''Weekly sync.''),
               (''participants'', PyList [PyStr ''Ann'', PyStr ''Bob'']),
               (''key_decisions'', PyList [PyStr ''Ship - on Friday'']),
               (''action_items'', PyList []),
               (''discussion_points'', PyList [PyStr ''Budget'', PyStr ''Hiring''])] \<and>
   items_trimmed [(''meeting_summary'', PyStr ''Weekly sync.''),
               (''participants'', PyList [PyStr ''Ann'', PyStr ''Bob'']),
               (''key_decisions'', PyList [PyStr ''Ship - on Friday'']),
               (''action_items'', PyList []),
               (''discussion_points'', PyList [PyStr ''Budget'', PyStr ''Hiring''])] \<and>
   extract_json_from_response ''  {"meeting_summary": "Weekly sync.", "participants": ["Ann", "Bob"], "key_decisions": ["Ship - on Friday"], "action_items": [], "discussion_points": ["Budget", "Hiring"]} '' =
     Inr [(''meeting_summary'', PyStr ''Weekly sync.''),
          (''participants'', PyList [PyStr ''Ann'', PyStr ''Bob'']),
          (''key_decisions'', PyList [PyStr ''Ship - on Friday'']),
          (''action_items'', PyList []),
          (''discussion_points'', PyList [PyStr ''Budget'', PyStr ''Hiring''])]\<close>
proof -
  let ?T = \<open>''  {"meeting_summary": "Weekly sync.", "participants": ["Ann", "Bob"], "key_decisions": ["Ship - on Friday"], "action_items": [], "discussion_points": ["Budget", "Hiring"]} ''\<close>
  let ?M = \<open>''"meeting_summary": "Weekly sync.", "participants": ["Ann", "Bob"], "key_decisions": ["Ship - on Friday"], "action_items": [], "discussion_points": ["Budget", "Hiring"]''\<close>
  let ?P = "[(''meeting_summary'', PyStr ''Weekly sync.''),
               (''participants'', PyList [PyStr ''Ann'', PyStr ''Bob'']),
               (''key_decisions'', PyList [PyStr ''Ship - on Friday'']),
               (''action_items'', PyList []),
               (''discussion_points'', PyList [PyStr ''Budget'', PyStr ''Hiring''])]"
  have s: "strip ?T = CHR ''{'' # ?M @ [CHR ''}'']" by code_simp
  have l: "json_loads (strip ?T) = Inr (PyDict ?P)" by code_simp
  have w: "well_typed ?P" by code_simp
  have n: "no_overconcat ?P" by code_simp
  have t: "items_trimmed ?P" by code_simp
  from well_formed_unchanged [of ?T ?M json_loads ?P, OF s l w n t] s l w n t show ?thesis
    by (simp only: extract_json_from_response_def simp_thms)
qed

text \<open>
  C6 as stated fails on an item with whitespace around it: the object is well typed and
  no item is over-concatenated, yet the item \<open>" Ship on Friday "\<close> comes back trimmed.
\<close>

theorem padded_item_counterexample:
  \<open>json_loads ''{"meeting_summary": "Weekly sync.", "participants": ["Ann"], "key_decisions": [" Ship on Friday "], "action_items": [], "discussion_points": []}'' =
     Inr (PyDict [(''meeting_summary'', PyStr ''Weekly sync.''),
                   (''participants'', PyList [PyStr ''Ann'']),
                   (''key_decisions'', PyList [PyStr '' Ship on Friday '']),
                   (''action_items'', PyList []),
                   (''discussion_points'', PyList [])]) \<and>
   well_typed [(''meeting_summary'', PyStr ''Weekly sync.''),
               (''participants'', PyList [PyStr ''Ann'']),
               (''key_decisions'', PyList [PyStr '' Ship on Friday '']),
               (''action_items'', PyList []),
               (''discussion_points'', PyList [])] \<and>
   no_overconcat [(''meeting_summary'', PyStr ''Weekly sync.''),
               (''participants'', PyList [PyStr ''Ann'']),
               (''key_decisions'', PyList [PyStr '' Ship on Friday '']),
               (''action_items'', PyList []),
               (''discussion_points'', PyList [])] \<and>
   extract_json_from_response ''{"meeting_summary": "Weekly sync.", "participants": ["Ann"], "key_decisions": [" Ship on Friday "], "action_items": [], "discussion_points": []}'' =
     Inr [(''meeting_summary'', PyStr ''Weekly sync.''),
          (''participants'', PyList [PyStr ''Ann'']),
          (''key_decisions'', PyList [PyStr ''Ship on Friday'']),
          (''action_items'', PyList []),
          (''discussion_points'', PyList [])]\<close>
  by code_simp

subsection \<open>Lines\<close>

lemma startswith_single: "startswith (x # xs) [c] \<longleftrightarrow> x = c"
  by (simp add: startswith_def)


lemma py_split_no_sep: "c \<notin> set l \<Longrightarrow> py_split [c] l = [l]"
  by (induction l) (auto simp: startswith_single)

lemma py_split_line: "c \<notin> set l \<Longrightarrow> py_split [c] (l @ c # rest) = l # py_split [c] rest"
proof (induction l)
  case Nil
  show ?case by (simp add: startswith_single)
next
  case (Cons x l)
  then show ?case by (auto simp: startswith_single)
qed

lemma py_split_join:
  "lines \<noteq> [] \<Longrightarrow> \<forall>l \<in> set lines. c \<notin> set l \<Longrightarrow> py_split [c] (py_join [c] lines) = lines"
proof (induction lines)
  case Nil
  then show ?case by simp
next
  case (Cons l ls)
  show ?case
  proof (cases ls)
    case Nil
    with Cons.prems show ?thesis by (simp add: py_split_no_sep)
  next
    case (Cons a ls')
    with Cons.prems Cons.IH show ?thesis by (simp add: py_split_line)
  qed
qed

lemma startswith_append:
  assumes "startswith l p"
  shows "startswith (l @ r) p"
proof -
  from assms have a: "take (length p) l = p" by (simp add: startswith_def)
  then have "length (take (length p) l) = length p" by simp
  then have "length p \<le> length l" by simp
  with a show ?thesis by (simp add: startswith_def)
qed

lemma startswith_join: "startswith l p \<Longrightarrow> startswith (py_join sep (l # ls)) p"
  by (cases ls) (auto intro: startswith_append)

lemma last_strip: "strip t \<noteq> [] \<Longrightarrow> \<not> isspace (last (strip t))"
  unfolding strip_def by (simp add: last_rev hd_dropWhile)

lemma last_join_empty: "ls \<noteq> [] \<Longrightarrow> last ls = [] \<Longrightarrow> last (py_join nl (l # ls)) = CHR 0x0A"
proof (induction ls arbitrary: l)
  case Nil
  then show ?case by simp
next
  case (Cons a ls)
  show ?case
  proof (cases ls)
    case Nil
    with Cons.prems show ?thesis by (simp add: nl_def)
  next
    case (Cons b ls')
    with Cons.prems Cons.IH [of a] show ?thesis by (simp add: nl_def)
  qed
qed

section \<open>Stripping the fenced block\<close>

text \<open>
  C7. On a text that does not begin with the fence marker, and so on every text without
  a fence marker, the stripping step changes nothing. On a text that begins with it,
  made of the lines \<open>l # ls\<close>, the first line \<open>l\<close> (the marker and what follows it on
  the line) is removed, and the last of the remaining lines is removed too when it begins
  with the marker. The step runs on the trimmed text, whose last line is not empty, so
  that line is the last non-empty line.
\<close>

theorem strip_code_block_lines:
  "(\<not> startswith cleaned fence \<longrightarrow> strip_code_block cleaned = cleaned) \<and>
   (\<forall>l ls. startswith l fence \<and> (\<forall>x \<in> set (l # ls). CHR 0x0A \<notin> set x) \<and>
            cleaned = py_join nl (l # ls) \<longrightarrow>
      strip_code_block cleaned =
        py_join nl (if ls \<noteq> [] \<and> startswith (last ls) fence then butlast ls else ls) \<and>
      (cleaned = strip cleaned \<and> ls \<noteq> [] \<longrightarrow> last ls \<noteq> []))"
proof (intro conjI allI impI)
  assume "\<not> startswith cleaned fence"
  then show "strip_code_block cleaned = cleaned" by (simp add: strip_code_block_def)
next
  fix l ls
  assume h: "startswith l fence \<and> (\<forall>x \<in> set (l # ls). CHR 0x0A \<notin> set x) \<and>
            cleaned = py_join nl (l # ls)"
  then have sw: "startswith cleaned fence" by (simp add: startswith_join)
  from h have sp: "py_split nl cleaned = l # ls"
    unfolding nl_def by (simp add: py_split_join)
  from sw sp h show "strip_code_block cleaned =
        py_join nl (if ls \<noteq> [] \<and> startswith (last ls) fence then butlast ls else ls)"
    by (simp add: strip_code_block_def)
next
  fix l ls
  assume h: "startswith l fence \<and> (\<forall>x \<in> set (l # ls). CHR 0x0A \<notin> set x) \<and>
            cleaned = py_join nl (l # ls)"
    and t: "cleaned = strip cleaned \<and> ls \<noteq> []"
  show "last ls \<noteq> []"
  proof
    assume "last ls = []"
    with t h have "last cleaned = CHR 0x0A" by (simp add: last_join_empty)
    moreover from h have "startswith cleaned fence" by (simp add: startswith_join)
    then have "cleaned \<noteq> []" by (auto simp: startswith_def fence_def)
    ultimately have "isspace (last (strip cleaned))" "strip cleaned \<noteq> []"
      using t by (simp_all add: isspace_def)
    with last_strip show False by blast
  qed
qed


theorem strip_code_block_lines_witness:
  \<open>\<not> startswith ''{"a": 1}'' fence \<and>
   strip_code_block ''{"a": 1}'' = ''{"a": 1}'' \<and>
   startswith (fence @ ''json'') fence \<and>
   CHR 0x0A \<notin> set (fence @ ''json'') \<and> CHR 0x0A \<notin> set ''{"a": 1}'' \<and> CHR 0x0A \<notin> set fence \<and>
   py_join nl [fence @ ''json'', ''{"a": 1}'', fence] =
     strip (py_join nl [fence @ ''json'', ''{"a": 1}'', fence]) \<and>
   strip_code_block (py_join nl [fence @ ''json'', ''{"a": 1}'', fence]) = ''{"a": 1}'' \<and>
   last [''{"a": 1}'', fence] \<noteq> []\<close>
proof -
  let ?c1 = \<open>''{"a": 1}''\<close>
  let ?l = "fence @ ''json''"
  let ?ls = "[?c1, fence]"
  let ?c2 = "py_join nl (?l # ?ls)"
  have n: "\<not> startswith ?c1 fence" by code_simp
  have a: "startswith ?l fence" by code_simp
  have b1: "CHR 0x0A \<notin> set ?l" by code_simp
  have b2: "CHR 0x0A \<notin> set ?c1" by code_simp
  have b3: "CHR 0x0A \<notin> set fence" by code_simp
  have b: "\<forall>x \<in> set (?l # ?ls). CHR 0x0A \<notin> set x" using b1 b2 b3 by simp
  have t: "?c2 = strip ?c2" by code_simp
  have r: "py_join nl (if ?ls \<noteq> [] \<and> startswith (last ?ls) fence then butlast ?ls else ?ls) = ?c1"
    by code_simp
  from strip_code_block_lines [of ?c1] n have 1: "strip_code_block ?c1 = ?c1" by blast
  from strip_code_block_lines [of ?c2] a b t
  have "strip_code_block ?c2 =
          py_join nl (if ?ls \<noteq> [] \<and> startswith (last ?ls) fence then butlast ?ls else ?ls) \<and>
        last ?ls \<noteq> []"
    by blast
  with r have 2: "strip_code_block ?c2 = ?c1" and 3: "last ?ls \<noteq> []" by simp_all
  from n 1 a b1 b2 b3 t 2 3 show ?thesis by (simp only: simp_thms)
qed

section \<open>Empty transcripts\<close>

text \<open>
  C8. When the request body is an object whose \<open>transcript\<close> is a string of whitespace
  characters only (the empty string among them), the handler answers 400 with the body
  \<open>{error: "Empty transcript"}\<close>, and no prompt has been sent to the LLM runtime,
  whatever the runtime would have answered.
\<close>

theorem empty_transcript_rejected:
  assumes "map_of d ''transcript'' = Some (PyStr transcript)"
    and "\<forall>c \<in> set transcript. isspace c"
  shows "analyze_meeting chat str_e (PyDict d) =
           (\<lparr>status = 400, body = [(''error'', PyStr ''Empty transcript'')]\<rparr>, [])"
proof -
  from assms(2) have "strip transcript = []" by (simp add: strip_empty_iff)
  with assms(1) show ?thesis by (simp add: analyze_meeting_def)
qed

theorem empty_transcript_rejected_witness:
  "map_of [(''transcript'', PyStr ''   '')] ''transcript'' = Some (PyStr ''   '') \<and>
   isspace (CHR '' '') \<and>
   analyze_meeting (\<lambda>prompt. Inr ''{}'') (\<lambda>e. ''error'') (PyDict [(''transcript'', PyStr ''   '')]) =
     (\<lparr>status = 400, body = [(''error'', PyStr ''Empty transcript'')]\<rparr>, [])"
proof -
  have m: "map_of [(''transcript'', PyStr ''   '')] ''transcript'' = Some (PyStr ''   '')" by simp
  have s: "isspace (CHR '' '')" by (simp add: isspace_def)
  then have a: "\<forall>c \<in> set ''   ''. isspace c" by simp
  from empty_transcript_rejected [OF m a, of "\<lambda>prompt. Inr ''{}''" "\<lambda>e. ''error''"] m s
  show ?thesis by (simp only: simp_thms)
qed

section \<open>A span the decoder does not reject with \<open>JSONDecodeError\<close>\<close>

subsection \<open>An integer of more digits than the interpreter converts\<close>

lemma takeWhile_digits:
  assumes "\<forall>c \<in> set ds. isdigit c" and "\<not> isdigit x"
  shows "takeWhile isdigit (ds @ x # rest) = ds"
  using assms by (simp add: takeWhile_append2)

lemma scan_number_oversized:
  assumes "isdigit d" and "d \<noteq> CHR ''0''" and "d \<noteq> CHR ''-''"
    and "\<forall>c \<in> set ds. isdigit c"
    and "int_max_str_digits \<le> length ds"
  shows "scan_number (d # ds @ CHR '' '' # rest) = Inl ValueError"
proof -
  have nd: "\<not> isdigit (CHR '' '')" by (simp add: isdigit_def)
  have tw: "takeWhile isdigit (d # ds @ CHR '' '' # rest) = d # ds"
    using assms(1) takeWhile_digits [OF assms(4) nd, of rest] by simp
  have ft: "\<not> float_tail (CHR '' '' # rest)" by (simp add: float_tail_def)
  have ns: "\<not> startswith (d # ds @ CHR '' '' # rest) ''-''"
    using assms(3) by (simp add: startswith_def)
  have tw0: "takeWhile isdigit (ds @ CHR '' '' # rest) = ds"
    using assms(4) nd by (rule takeWhile_digits)
  show ?thesis
    unfolding scan_number_def Let_def
    using assms(1,2,5) ns ft by (simp add: tw0)
qed

lemma scan_value_number:
  "scan_value (Suc n) (CHR ''7'' # s) = scan_number (CHR ''7'' # s)"
  by (simp add: startswith_def)

lemma scan_members_oversized:
  assumes "\<forall>c \<in> set ds. isdigit c" and "int_max_str_digits \<le> length ds"
  shows \<open>scan_members (Suc (Suc n)) (''"n": 7'' @ ds @ '' oops}'') = Inl ValueError\<close>
proof -
  have s: \<open>scanstring (''n": 7'' @ ds @ '' oops}'') = Inr (''n'', '': 7'' @ ds @ '' oops}'')\<close>
    by (simp add: ok_map_def)
  have w1: "skip_ws ('': 7'' @ ds @ '' oops}'') = '': 7'' @ ds @ '' oops}''"
    by (simp add: skip_ws_def json_ws_def)
  have w2: "skip_ws ('' 7'' @ ds @ '' oops}'') = CHR ''7'' # ds @ '' oops}''"
    by (simp add: skip_ws_def json_ws_def)
  have d: "isdigit (CHR ''7'')" by (simp add: isdigit_def)
  have "scan_number (CHR ''7'' # ds @ CHR '' '' # ''oops}'') = Inl ValueError"
    by (rule scan_number_oversized) (simp_all add: d assms)
  then have v: "scan_value (Suc n) (CHR ''7'' # ds @ '' oops}'') = Inl ValueError"
    by (simp only: scan_value_number)
  have \<open>scan_members (Suc (Suc n)) (CHR 0x22 # ''n": 7'' @ ds @ '' oops}'') = Inl ValueError\<close>
    apply (subst scan_members.simps)
    using s w1 w2 v
    apply (simp del: scan_value.simps scan_members.simps scan_elements.simps)
    done
  then show ?thesis by simp
qed

lemma json_loads_oversized:
  assumes "\<forall>c \<in> set ds. isdigit c" and "int_max_str_digits \<le> length ds"
  shows \<open>json_loads (''{"n": 7'' @ ds @ '' oops}'') = Inl ValueError\<close>
proof -
  let ?T = \<open>''{"n": 7'' @ ds @ '' oops}''\<close>
  obtain n where n: "length ?T = Suc (Suc n)" by simp
  have w: "skip_ws ?T = ?T" by (simp add: skip_ws_def json_ws_def)
  have w': \<open>skip_ws (''"n": 7'' @ ds @ '' oops}'') = ''"n": 7'' @ ds @ '' oops}''\<close>
    by (simp add: skip_ws_def json_ws_def)
  have \<open>scan_value (Suc (Suc (Suc n))) (CHR ''{'' # ''"n": 7'' @ ds @ '' oops}'') = Inl ValueError\<close>
    apply (subst scan_value.simps)
    using w' scan_members_oversized [OF assms, of n]
    apply (simp add: ok_map_def del: scan_value.simps scan_members.simps scan_elements.simps)
    done
  then have "scan_value (Suc (length ?T)) (skip_ws ?T) = Inl ValueError"
    unfolding w n by simp
  then show ?thesis by (simp only: json_loads_def sum.case)
qed


lemma json_match_object:
  "json_match (CHR ''{'' # mid @ [CHR ''}'']) = Some (CHR ''{'' # mid @ [CHR ''}''])"
  using json_match_span [of "[]" "[]" mid] by simp

text \<open>
  C5. The normalizer does not return the fallback record on every span that fails to parse.
  In the text below the span is the whole text; it is no JSON (the integer is followed by
  \<open>oops\<close>), but the integer has 4301 digits, and the decoder raises \<open>ValueError\<close> when
  it converts them, before it looks at what follows. Only \<open>JSONDecodeError\<close> is caught,
  so the exception leaves the normalizer.
\<close>

theorem oversized_integer_escapes:
  \<open>json_match (strip_code_block (strip (''{"n": '' @ replicate 4301 (CHR ''7'') @ '' oops}''))) =
     Some (''{"n": '' @ replicate 4301 (CHR ''7'') @ '' oops}'') \<and>
   json_loads (''{"n": '' @ replicate 4301 (CHR ''7'') @ '' oops}'') = Inl ValueError \<and>
   extract_json_from_response (''{"n": '' @ replicate 4301 (CHR ''7'') @ '' oops}'') =
     Inl ValueError\<close>
proof -
  let ?ds = "replicate 4300 (CHR ''7'')"
  let ?T = \<open>''{"n": 7'' @ ?ds @ '' oops}''\<close>
  have "replicate (Suc 4300) (CHR ''7'') = CHR ''7'' # ?ds" by (rule replicate_Suc)
  then have r: "replicate 4301 (CHR ''7'') = CHR ''7'' # ?ds" by simp
  have T: \<open>''{"n": '' @ replicate 4301 (CHR ''7'') @ '' oops}'' = ?T\<close>
    unfolding r by simp
  have obj: \<open>?T = CHR ''{'' # (''"n": 7'' @ ?ds @ '' oops'') @ [CHR ''}'']\<close> by simp
  have s: "strip ?T = ?T" unfolding obj by (rule strip_object)
  have "\<not> startswith ?T fence" by (simp add: startswith_def fence_def)
  then have c: "strip_code_block ?T = ?T" by (simp add: strip_code_block_def)
  have m: "json_match ?T = Some ?T" unfolding obj by (rule json_match_object)
  have d: "\<forall>c \<in> set ?ds. isdigit c" by (simp add: isdigit_def)
  have n: "int_max_str_digits \<le> length ?ds" by (simp add: int_max_str_digits_def)
  have l: "json_loads ?T = Inl ValueError" using d n by (rule json_loads_oversized)
  have g: "json_match (strip_code_block (strip ?T)) = Some ?T"
    unfolding s c by (rule m)
  have e: "extract_with json_loads ?T = Inl ValueError"
    unfolding extract_with_def Let_def g option.case l by simp
  show ?thesis
    unfolding T extract_json_from_response_def by (intro conjI g l e)
qed

section \<open>Further facts about the model\<close>

subsection \<open>When the normalizer returns\<close>

text \<open>
  Once the decoder has returned an object, the normalizer returns a record exactly when
  every truthy value of the three multi-item list fields can be iterated (a list, a
  string or an object); otherwise it raises \<open>TypeError\<close>.
\<close>

lemma default_value_falsy: "k \<in> set list_keys \<Longrightarrow> \<not> truthy (default_value k)"
  by (auto simp: list_keys_def default_value_def)

lemma extract_with_returns:
  assumes "json_match (strip_code_block (strip text)) = Some m"
    and "loads m = Inr (PyDict parsed)"
  shows "(\<exists>r. extract_with loads text = Inr r) \<longleftrightarrow>
         (\<forall>k \<in> set list_keys. \<forall>v. map_of parsed k = Some v \<and> truthy v \<longrightarrow> iterable v)"
proof -
  have "extract_with loads text = split_items list_keys (ensure_keys required_keys parsed)"
    using assms by (simp add: extract_with_def)
  moreover have "(map_of (ensure_keys required_keys parsed) k = Some v \<and> truthy v) =
                 (map_of parsed k = Some v \<and> truthy v)" if "k \<in> set list_keys" for k v
    using that default_value_falsy [OF that]
    by (auto simp: map_of_ensure_keys split: option.splits if_splits)
  ultimately show ?thesis
    by (simp add: split_items_returns [OF distinct_list_keys])
qed

subsection \<open>Splitting, joining and counting\<close>

text \<open>
  The three string primitives agree with each other as Python's do: joining the pieces of
  a split gives the string back, and a split has one piece more than \<open>count\<close> counts.
\<close>

lemma py_split_not_Nil: "py_split sep s \<noteq> []"
proof (induction sep s rule: py_split.induct)
  case (1 sep)
  show ?case by simp
next
  case (2 sep x xs)
  show ?case
  proof (cases "sep \<noteq> [] \<and> startswith (x # xs) sep")
    case True
    then show ?thesis by simp
  next
    case False
    then show ?thesis by (cases "py_split sep xs") auto
  qed
qed

lemma py_join_Cons: "ls \<noteq> [] \<Longrightarrow> py_join sep (l # ls) = l @ sep @ py_join sep ls"
  by (cases ls) simp_all

lemma py_join_Cons_char: "py_join sep ((x # l) # ls) = x # py_join sep (l # ls)"
  by (cases ls) simp_all

lemma startswith_drop:
  assumes "sep \<noteq> []" and "startswith (x # xs) sep"
  shows "sep @ drop (length sep - 1) xs = x # xs"
proof -
  from assms(2) have "take (length sep) (x # xs) = sep" by (simp add: startswith_def)
  moreover have "drop (length sep) (x # xs) = drop (length sep - 1) xs"
    using assms(1) by (cases sep) simp_all
  ultimately show ?thesis by (metis append_take_drop_id)
qed

lemma py_join_split: "sep \<noteq> [] \<Longrightarrow> py_join sep (py_split sep s) = s"
proof (induction sep s rule: py_split.induct)
  case (1 sep)
  show ?case by simp
next
  case (2 sep x xs)
  show ?case
  proof (cases "startswith (x # xs) sep")
    case True
    with 2 have "py_join sep (py_split sep (drop (length sep - 1) xs)) = drop (length sep - 1) xs"
      by simp
    moreover have "sep @ drop (length sep - 1) xs = x # xs"
      using 2(3) True by (rule startswith_drop)
    ultimately show ?thesis
      using True 2(3) by (simp add: py_join_Cons py_split_not_Nil del: One_nat_def)
  next
    case False
    with 2 have IH: "py_join sep (py_split sep xs) = xs" by simp
    obtain l ls where s: "py_split sep xs = l # ls"
      using py_split_not_Nil [of sep xs] by (cases "py_split sep xs") auto
    with False IH show ?thesis by (simp add: py_join_Cons_char)
  qed
qed

lemma py_count_split: "sep \<noteq> [] \<Longrightarrow> Suc (py_count sep s) = length (py_split sep s)"
proof (induction sep s rule: py_split.induct)
  case (1 sep)
  show ?case by simp
next
  case (2 sep x xs)
  show ?case
  proof (cases "startswith (x # xs) sep")
    case True
    with 2 show ?thesis by simp
  next
    case False
    obtain l ls where s: "py_split sep xs = l # ls"
      using py_split_not_Nil [of sep xs] by (cases "py_split sep xs") auto
    with False 2 show ?thesis by simp
  qed
qed

end
